theory Spec2Isabelle
  imports Main
begin

section \<open>Avatar: image loading status and fallback gate\<close>

text \<open>
  A shallow embedding of \<^verbatim>\<open>packages/react/avatar/src/Avatar.tsx\<close>.

  The component functions are pure in their hook state; the hook state, the image
  object behind \<^verbatim>\<open>image.current\<close>, the window's timeout table and the calls made
  on external collaborators are passed explicitly. One evaluation of a component
  function together with the effects it commits is a \<^emph>\<open>pass\<close>; a state update made
  by a layout effect makes React render again before it yields, which is the loop
  \<open>settle\<close> below.
\<close>

subsection \<open>Data model\<close>

text \<open>\<^verbatim>\<open>type ImageLoadingStatus = 'idle' | 'loading' | 'loaded' | 'error'\<close>\<close>

datatype ImageLoadingStatus = idle | loading | loaded | error

text \<open>The two notifications of the image object the hook listens to.\<close>

datatype listener_type = LoadEvent | ErrorEvent

text \<open>
  The host's image-decode primitive (\<^verbatim>\<open>window.Image\<close>) is not part of the source.
  It is a parameter: the state \<open>'h\<close> of one decode handle, the freshly constructed
  handle, the \<^verbatim>\<open>src\<close> getter and setter, the \<^verbatim>\<open>complete\<close> and \<^verbatim>\<open>naturalWidth\<close>
  getters, and what the host does to the handle when it delivers a notification.
\<close>

record 'h platform =
  newImage :: "'h"
  getSrc :: "'h \<Rightarrow> string"
  setSrc :: "string \<Rightarrow> 'h \<Rightarrow> 'h"
  getComplete :: "'h \<Rightarrow> bool"
  getNaturalWidth :: "'h \<Rightarrow> int"
  delivered :: "listener_type \<Rightarrow> 'h \<Rightarrow> 'h"

text \<open>
  The \<^verbatim>\<open>MockImage\<close> class of the test file, over the test's global \<^verbatim>\<open>cache\<close>:
  a handle is its \<^verbatim>\<open>_src\<close> and the cache. The setter ignores a falsy value;
  \<^verbatim>\<open>complete\<close> is \<^verbatim>\<open>!this.src || cache.has(this.src)\<close>; \<^verbatim>\<open>naturalWidth\<close> is
  \<^verbatim>\<open>this.complete ? 300 : 0\<close>; the timer callback of the setter dispatches
  \<^verbatim>\<open>load\<close> and adds the source to the cache. The mock never dispatches \<^verbatim>\<open>error\<close>.
\<close>

definition MockImage :: "string list \<Rightarrow> (string \<times> string list) platform" where
  "MockImage cache =
     \<lparr> newImage = ([], cache),
       getSrc = (\<lambda>(s, c). s),
       setSrc = (\<lambda>v (s, c). if v = [] then (s, c) else (v, c)),
       getComplete = (\<lambda>(s, c). s = [] \<or> s \<in> set c),
       getNaturalWidth = (\<lambda>(s, c). if s = [] \<or> s \<in> set c then 300 else 0),
       delivered = (\<lambda>t (s, c). case t of LoadEvent \<Rightarrow> (s, s # c) | ErrorEvent \<Rightarrow> (s, c)) \<rparr>"


text \<open>
  The image object as the component sees it: the host's handle, the listeners
  registered on it (a listener \<^verbatim>\<open>updateStatus(status)\<close> is the status it sets),
  and a record of the calls made on it, oldest first, as a spy would keep.
\<close>

datatype image_call =
    SetSrc string
  | AddEventListener listener_type
  | RemoveEventListener listener_type

record 'h HTMLImageElement =
  handle :: "'h"
  listeners :: "(listener_type \<times> ImageLoadingStatus) list"
  calls :: "image_call list"

definition assign_src :: "'h platform \<Rightarrow> string \<Rightarrow> 'h HTMLImageElement \<Rightarrow> 'h HTMLImageElement" where
  "assign_src P s img =
     img\<lparr>handle := setSrc P s (handle img), calls := calls img @ [SetSrc s]\<rparr>"

definition addEventListener ::
  "listener_type \<Rightarrow> ImageLoadingStatus \<Rightarrow> 'h HTMLImageElement \<Rightarrow> 'h HTMLImageElement" where
  "addEventListener t cb img =
     img\<lparr>listeners := listeners img @ [(t, cb)], calls := calls img @ [AddEventListener t]\<rparr>"

definition removeEventListener ::
  "listener_type \<Rightarrow> ImageLoadingStatus \<Rightarrow> 'h HTMLImageElement \<Rightarrow> 'h HTMLImageElement" where
  "removeEventListener t cb img =
     img\<lparr>listeners := remove1 (t, cb) (listeners img),
         calls := calls img @ [RemoveEventListener t]\<rparr>"

subsection \<open>setImageSrcAndGetInitialState\<close>

text \<open>
  \<^verbatim>\<open>src?: string\<close> is a \<open>string option\<close>; \<^verbatim>\<open>!src\<close> holds for \<^verbatim>\<open>undefined\<close> and for
  the empty string. The function returns the status and the image object it may have
  assigned to.
\<close>

definition setImageSrcAndGetInitialState ::
  "'h platform \<Rightarrow> 'h HTMLImageElement \<Rightarrow> string option \<Rightarrow> ImageLoadingStatus \<times> 'h HTMLImageElement" where
  "setImageSrcAndGetInitialState P img src =
     (case src of
        None \<Rightarrow> (error, img)
      | Some s \<Rightarrow>
          if s = [] then (error, img)
          else
            let img' = (if getSrc P (handle img) \<noteq> s then assign_src P s img else img)
            in (if getComplete P (handle img') \<and> getNaturalWidth P (handle img') > 0
                then loaded else loading,
                img'))"

subsection \<open>AvatarImage with useImageLoadingStatus, under one Root\<close>

text \<open>
  What the components return: \<^verbatim>\<open><Primitive.img src={src} />\<close> from \<^verbatim>\<open>AvatarImage\<close>,
  \<^verbatim>\<open><Primitive.span />\<close> from \<^verbatim>\<open>AvatarFallback\<close>, or \<^verbatim>\<open>null\<close> (\<open>None\<close>).
\<close>

datatype element = Img "string option" | Span

definition AvatarImage_render :: "string option \<Rightarrow> ImageLoadingStatus \<Rightarrow> element option" where
  "AvatarImage_render src imageLoadingStatus =
     (if imageLoadingStatus = loaded then Some (Img src) else None)"

text \<open>The two callbacks \<^verbatim>\<open>handleLoadingStatusChange\<close> calls, as recorded calls.\<close>

datatype notification =
    OnLoadingStatusChange ImageLoadingStatus
  | OnImageLoadingStatusChange ImageLoadingStatus

text \<open>
  The state of one mounted \<^verbatim>\<open>AvatarImage\<close> and of the \<^verbatim>\<open>Avatar\<close> root above it:
  \<^item> \<open>image_current\<close>: \<^verbatim>\<open>image.current\<close> of \<^verbatim>\<open>useRef\<close>;
  \<^item> \<open>loadingStatus\<close>: the \<^verbatim>\<open>useState\<close> of \<^verbatim>\<open>useImageLoadingStatus\<close>;
  \<^item> \<open>src_deps\<close>: the dependency \<^verbatim>\<open>[src]\<close> of the last committed pass;
  \<^item> \<open>status_deps\<close>: the dependency \<^verbatim>\<open>imageLoadingStatus\<close> of the notifying effect in
    the last committed pass (\<^verbatim>\<open>handleLoadingStatusChange\<close> is stable by
    \<^verbatim>\<open>useCallbackRef\<close>);
  \<^item> \<open>notifications\<close>: the calls of the two status callbacks, oldest first;
  \<^item> \<open>context_imageLoadingStatus\<close>: the \<^verbatim>\<open>useState\<close> of \<^verbatim>\<open>Avatar\<close>, written only through
    \<^verbatim>\<open>context.onImageLoadingStatusChange\<close>;
  \<^item> \<open>context_read\<close>: the context value \<^verbatim>\<open>useAvatarContext\<close> gave the last pass;
  \<^item> \<open>renders\<close>: what each pass returned, oldest first;
  \<^item> \<open>mounted\<close>: whether the instance is still mounted.
\<close>

record 'h AvatarImage_state =
  image_current :: "'h HTMLImageElement"
  loadingStatus :: ImageLoadingStatus
  src_deps :: "string option"
  status_deps :: ImageLoadingStatus
  notifications :: "notification list"
  context_imageLoadingStatus :: ImageLoadingStatus
  context_read :: ImageLoadingStatus
  renders :: "element option list"
  mounted :: bool

definition handleLoadingStatusChange ::
  "ImageLoadingStatus \<Rightarrow> 'h AvatarImage_state \<Rightarrow> 'h AvatarImage_state" where
  "handleLoadingStatusChange status st =
     st\<lparr>notifications :=
          notifications st @ [OnLoadingStatusChange status, OnImageLoadingStatusChange status],
        context_imageLoadingStatus := status\<rparr>"

text \<open>
  \<^verbatim>\<open>useImageLoadingStatus(src)\<close> in a pass of a mounted instance: it returns the state
  as it stands, and its layout effect on \<^verbatim>\<open>[src]\<close> stores a new state when the source
  changed. Its subscription effect has no dependency and does not run again.
\<close>

definition useImageLoadingStatus ::
  "'h platform \<Rightarrow> string option \<Rightarrow> 'h AvatarImage_state \<Rightarrow> ImageLoadingStatus \<times> 'h AvatarImage_state" where
  "useImageLoadingStatus P src st =
     (loadingStatus st,
      if src \<noteq> src_deps st
      then (case setImageSrcAndGetInitialState P (image_current st) src of
              (s, img) \<Rightarrow> st\<lparr>image_current := img, loadingStatus := s, src_deps := src\<rparr>)
      else st)"

text \<open>
  One pass of a mounted \<^verbatim>\<open>AvatarImage\<close> with the prop \<open>src\<close>: the context is read,
  then the hook, the element returned, and the notifying layout effect, which runs
  after the hook's and still sees the status this pass rendered.
\<close>

definition AvatarImage ::
  "'h platform \<Rightarrow> string option \<Rightarrow> 'h AvatarImage_state \<Rightarrow> 'h AvatarImage_state" where
  "AvatarImage P src st =
     (case useImageLoadingStatus P src st of
        (imageLoadingStatus, st1) \<Rightarrow>
          let st2 = st1\<lparr>renders := renders st1 @ [AvatarImage_render src imageLoadingStatus],
                       context_read := context_imageLoadingStatus st\<rparr>
          in if imageLoadingStatus \<noteq> status_deps st2
             then (if imageLoadingStatus \<noteq> idle
                   then handleLoadingStatusChange imageLoadingStatus st2 else st2)
                    \<lparr>status_deps := imageLoadingStatus\<rparr>
             else st2)"

text \<open>
  While the state differs from the status the last pass rendered, or the Root's status
  from the context value the last pass read, React renders the component again with
  the same props: a state update and a context change made by the layout effects of
  one pass are taken up together by the next.
\<close>

function settle ::
  "'h platform \<Rightarrow> string option \<Rightarrow> 'h AvatarImage_state \<Rightarrow> 'h AvatarImage_state" where
  "settle P src st =
     (if loadingStatus st = status_deps st \<and> context_imageLoadingStatus st = context_read st
      then st else settle P src (AvatarImage P src st))"
  by pat_completeness auto
termination
proof (relation "measure (\<lambda>(P, src, st).
         (if src = src_deps st then 0 else 4) +
         (if loadingStatus st = status_deps st then 0 else 2) +
         (if context_imageLoadingStatus st = context_read st then 0 else 1))")
  show "wf (measure (\<lambda>(P :: 'h platform, src, st :: 'h AvatarImage_state).
         (if src = src_deps st then 0 else 4) +
         (if loadingStatus st = status_deps st then 0 else 2) +
         (if context_imageLoadingStatus st = context_read st then 0 else (1::nat))))"
    by simp
next
  fix P :: "'h platform" and src and st :: "'h AvatarImage_state"
  assume "\<not> (loadingStatus st = status_deps st \<and> context_imageLoadingStatus st = context_read st)"
  then show "((P, src, AvatarImage P src st), (P, src, st))
      \<in> measure (\<lambda>(P, src, st).
         (if src = src_deps st then 0 else 4) +
         (if loadingStatus st = status_deps st then 0 else 2) +
         (if context_imageLoadingStatus st = context_read st then 0 else 1))"
    by (auto simp: AvatarImage_def useImageLoadingStatus_def Let_def handleLoadingStatusChange_def
        split: prod.splits)
qed

declare settle.simps [simp del]

text \<open>
  The first pass. \<^verbatim>\<open>useImageLoadingStatus\<close>: \<^verbatim>\<open>useRef(new window.Image())\<close>, the lazy
  \<^verbatim>\<open>useState\<close> initialiser, whose value is returned, then its two layout effects
  (\<^verbatim>\<open>[src]\<close> and the subscription). It yields the status returned, the image object
  and the state stored by the effect.
\<close>

definition useImageLoadingStatus_mount ::
  "'h platform \<Rightarrow> string option \<Rightarrow> ImageLoadingStatus \<times> 'h HTMLImageElement \<times> ImageLoadingStatus" where
  "useImageLoadingStatus_mount P src =
     (let img0 = \<lparr>handle = newImage P, listeners = [], calls = []\<rparr>;
          (s0, img1) = setImageSrcAndGetInitialState P img0 src;
          (s1, img2) = setImageSrcAndGetInitialState P img1 src;
          img3 = addEventListener ErrorEvent error (addEventListener LoadEvent loaded img2)
      in (s0, img3, s1))"

text \<open>
  \<^verbatim>\<open>AvatarImage\<close> in its first pass: the element for the status returned and the
  notifying effect. \<^verbatim>\<open>Avatar\<close> starts its own state at \<^verbatim>\<open>'idle'\<close>, which is the
  context value this pass reads.
\<close>

definition AvatarImage_mount :: "'h platform \<Rightarrow> string option \<Rightarrow> 'h AvatarImage_state" where
  "AvatarImage_mount P src =
     (case useImageLoadingStatus_mount P src of
        (imageLoadingStatus, img, s1) \<Rightarrow>
          let st = \<lparr>image_current = img, loadingStatus = s1, src_deps = src,
                    status_deps = imageLoadingStatus, notifications = [],
                    context_imageLoadingStatus = idle, context_read = idle,
                    renders = [AvatarImage_render src imageLoadingStatus], mounted = True\<rparr>
          in if imageLoadingStatus \<noteq> idle
             then handleLoadingStatusChange imageLoadingStatus st else st)"

text \<open>Mounting is the first pass and the passes that follow while the state moved.\<close>

definition mount :: "'h platform \<Rightarrow> string option \<Rightarrow> 'h AvatarImage_state" where
  "mount P src = settle P src (AvatarImage_mount P src)"

text \<open>The parent renders the instance again with a (possibly new) \<open>src\<close>.\<close>

definition rerender ::
  "'h platform \<Rightarrow> string option \<Rightarrow> 'h AvatarImage_state \<Rightarrow> 'h AvatarImage_state" where
  "rerender P src st = (if mounted st then settle P src (AvatarImage P src st) else st)"

text \<open>
  The host delivers \<^verbatim>\<open>load\<close> or \<^verbatim>\<open>error\<close> on the handle: every listener registered
  for that type runs \<^verbatim>\<open>setLoadingStatus(status)\<close>, and React renders if the state moved.
\<close>

definition run_listeners ::
  "listener_type \<Rightarrow> (listener_type \<times> ImageLoadingStatus) list \<Rightarrow> ImageLoadingStatus \<Rightarrow> ImageLoadingStatus" where
  "run_listeners t ls s = foldl (\<lambda>acc (t', status). if t' = t then status else acc) s ls"

definition dispatchEvent ::
  "'h platform \<Rightarrow> listener_type \<Rightarrow> 'h AvatarImage_state \<Rightarrow> 'h AvatarImage_state" where
  "dispatchEvent P t st =
     (let img = image_current st;
          st1 = st\<lparr>image_current := img\<lparr>handle := delivered P t (handle img)\<rparr>,
                  loadingStatus := run_listeners t (listeners img) (loadingStatus st)\<rparr>
      in settle P (src_deps st1) st1)"

text \<open>Unmounting runs the cleanup of the subscription effect.\<close>

definition unmount :: "'h AvatarImage_state \<Rightarrow> 'h AvatarImage_state" where
  "unmount st =
     (if mounted st
      then st\<lparr>image_current :=
                 removeEventListener ErrorEvent error
                   (removeEventListener LoadEvent loaded (image_current st)),
              mounted := False\<rparr>
      else st)"

datatype event = Rerender "string option" | Deliver listener_type | Unmount

fun step :: "'h platform \<Rightarrow> 'h AvatarImage_state \<Rightarrow> event \<Rightarrow> 'h AvatarImage_state" where
  "step P st (Rerender src) = rerender P src st"
| "step P st (Deliver t) = dispatchEvent P t st"
| "step P st Unmount = unmount st"

definition run :: "'h platform \<Rightarrow> string option \<Rightarrow> event list \<Rightarrow> 'h AvatarImage_state" where
  "run P src evs = foldl (step P) (mount P src) evs"

text \<open>The source the instance was last rendered with.\<close>

fun latest_src :: "string option \<Rightarrow> event list \<Rightarrow> string option" where
  "latest_src src [] = src"
| "latest_src src (Rerender src' # evs) = latest_src src' evs"
| "latest_src src (Deliver t # evs) = latest_src src evs"
| "latest_src src (Unmount # evs) = src"

text \<open>
  Reading the records: the calls of the status callbacks come in pairs, the
  instance-local callback first and the Root setter second, both with the same status
  and never with \<^verbatim>\<open>'idle'\<close>; the subscribe and unsubscribe calls on the image object.
\<close>

fun well_paired :: "notification list \<Rightarrow> bool" where
  "well_paired [] = True"
| "well_paired (OnLoadingStatusChange s # OnImageLoadingStatusChange s' # rest) =
     (s = s' \<and> s \<noteq> idle \<and> well_paired rest)"
| "well_paired _ = False"

fun is_subscribe :: "image_call \<Rightarrow> bool" where
  "is_subscribe (AddEventListener t) = True"
| "is_subscribe _ = False"

fun is_unsubscribe :: "image_call \<Rightarrow> bool" where
  "is_unsubscribe (RemoveEventListener t) = True"
| "is_unsubscribe _ = False"

fun is_assignment :: "image_call \<Rightarrow> bool" where
  "is_assignment (SetSrc s) = True"
| "is_assignment _ = False"


text \<open>
  The instance is at rest: the last pass rendered the current state and read the
  current context value, and the Root holds the loader's status.
\<close>

definition at_rest :: "'h AvatarImage_state \<Rightarrow> bool" where
  "at_rest st =
     (status_deps st = loadingStatus st \<and>
      context_read st = loadingStatus st \<and>
      context_imageLoadingStatus st = loadingStatus st)"

text \<open>What holds of every state between two events.\<close>

definition settled :: "'h AvatarImage_state \<Rightarrow> bool" where
  "settled st =
     (at_rest st \<and>
      loadingStatus st \<noteq> idle \<and>
      renders st \<noteq> [] \<and>
      last (renders st) = AvatarImage_render (src_deps st) (loadingStatus st) \<and>
      well_paired (notifications st) \<and>
      notifications st \<noteq> [] \<and>
      last (notifications st) = OnImageLoadingStatusChange (loadingStatus st) \<and>
      filter is_subscribe (calls (image_current st)) =
        [AddEventListener LoadEvent, AddEventListener ErrorEvent] \<and>
      listeners (image_current st) =
        (if mounted st then [(LoadEvent, loaded), (ErrorEvent, error)] else []) \<and>
      filter is_unsubscribe (calls (image_current st)) =
        (if mounted st then [] else [RemoveEventListener LoadEvent, RemoveEventListener ErrorEvent]))"

subsection \<open>AvatarFallback\<close>

text \<open>
  The window's one-shot scheduler is the second host primitive. Its table of pending
  timeouts (identifier and due time), the next identifier it hands out and its clock
  (milliseconds since the instance mounted) are part of the state, with the
  identifiers of the timeouts whose callback has run, oldest first.
  \<^item> \<open>canRender\<close>: the \<^verbatim>\<open>useState\<close> of \<^verbatim>\<open>AvatarFallback\<close>;
  \<^item> \<open>delayMs_deps\<close>: the dependency \<^verbatim>\<open>[delayMs]\<close> of the last committed render;
  \<^item> \<open>cleanup\<close>: the \<^verbatim>\<open>timerId\<close> held by the cleanup the effect last returned
    (\<open>None\<close> when it returned none).
\<close>

record AvatarFallback_state =
  canRender :: bool
  delayMs_deps :: "int option"
  cleanup :: "nat option"
  timeouts :: "(nat \<times> int) list"
  next_timeout :: nat
  clock :: int
  callbacks :: "nat list"
  fallback_mounted :: bool

text \<open>\<^verbatim>\<open>canRender && context.imageLoadingStatus !== 'loaded' ? <span/> : null\<close>\<close>

definition AvatarFallback_render :: "bool \<Rightarrow> ImageLoadingStatus \<Rightarrow> element option" where
  "AvatarFallback_render can status = (if can \<and> status \<noteq> loaded then Some Span else None)"

text \<open>\<^verbatim>\<open>window.setTimeout(cb, d)\<close>: a negative delay counts as zero.\<close>

definition window_setTimeout :: "int \<Rightarrow> AvatarFallback_state \<Rightarrow> nat \<times> AvatarFallback_state" where
  "window_setTimeout d st =
     (next_timeout st,
      st\<lparr>timeouts := timeouts st @ [(next_timeout st, clock st + max 0 d)],
         next_timeout := Suc (next_timeout st)\<rparr>)"

definition window_clearTimeout :: "nat \<Rightarrow> AvatarFallback_state \<Rightarrow> AvatarFallback_state" where
  "window_clearTimeout timerId st =
     st\<lparr>timeouts := filter (\<lambda>(i, due). i \<noteq> timerId) (timeouts st)\<rparr>"

text \<open>The body of the effect on \<^verbatim>\<open>[delayMs]\<close>, and the cleanup it returned last.\<close>

definition delay_effect :: "int option \<Rightarrow> AvatarFallback_state \<Rightarrow> AvatarFallback_state" where
  "delay_effect delayMs st =
     (case delayMs of
        None \<Rightarrow> st\<lparr>cleanup := None\<rparr>
      | Some d \<Rightarrow> (case window_setTimeout d st of (timerId, st') \<Rightarrow> st'\<lparr>cleanup := Some timerId\<rparr>))"

definition run_cleanup :: "AvatarFallback_state \<Rightarrow> AvatarFallback_state" where
  "run_cleanup st =
     (case cleanup st of None \<Rightarrow> st | Some timerId \<Rightarrow> window_clearTimeout timerId st)"

definition fallback_mount :: "int option \<Rightarrow> AvatarFallback_state" where
  "fallback_mount delayMs =
     delay_effect delayMs
       \<lparr>canRender = (delayMs = None), delayMs_deps = delayMs, cleanup = None, timeouts = [],
        next_timeout = 0, clock = 0, callbacks = [], fallback_mounted = True\<rparr>"

definition fallback_rerender :: "int option \<Rightarrow> AvatarFallback_state \<Rightarrow> AvatarFallback_state" where
  "fallback_rerender delayMs st =
     (if fallback_mounted st \<and> delayMs \<noteq> delayMs_deps st
      then (delay_effect delayMs (run_cleanup st))\<lparr>delayMs_deps := delayMs\<rparr>
      else st)"

text \<open>
  Time passes by \<open>t\<close> milliseconds: the scheduler runs the callback
  \<^verbatim>\<open>() => setCanRender(true)\<close> of every pending timeout that is due and drops it from
  its table.
\<close>

definition advance :: "nat \<Rightarrow> AvatarFallback_state \<Rightarrow> AvatarFallback_state" where
  "advance t st =
     (let now = clock st + int t;
          due = filter (\<lambda>(i, d). d \<le> now) (timeouts st)
      in st\<lparr>clock := now,
            timeouts := filter (\<lambda>(i, d). \<not> d \<le> now) (timeouts st),
            callbacks := callbacks st @ map fst due,
            canRender := (if due = [] then canRender st else True)\<rparr>)"

definition fallback_unmount :: "AvatarFallback_state \<Rightarrow> AvatarFallback_state" where
  "fallback_unmount st =
     (if fallback_mounted st then (run_cleanup st)\<lparr>fallback_mounted := False\<rparr> else st)"

datatype fallback_event = FallbackRerender "int option" | Advance nat | FallbackUnmount

fun fallback_step :: "AvatarFallback_state \<Rightarrow> fallback_event \<Rightarrow> AvatarFallback_state" where
  "fallback_step st (FallbackRerender delayMs) = fallback_rerender delayMs st"
| "fallback_step st (Advance t) = advance t st"
| "fallback_step st FallbackUnmount = fallback_unmount st"

definition fallback_run :: "int option \<Rightarrow> fallback_event list \<Rightarrow> AvatarFallback_state" where
  "fallback_run delayMs evs = foldl fallback_step (fallback_mount delayMs) evs"

text \<open>
  Every pending timeout is the one the current cleanup would clear, and none is
  pending once the instance is unmounted.
\<close>

definition pending_is_current :: "AvatarFallback_state \<Rightarrow> bool" where
  "pending_is_current st =
     ((case cleanup st of
         None \<Rightarrow> timeouts st = []
       | Some timerId \<Rightarrow> list_all (\<lambda>(i, due). i = timerId) (timeouts st)) \<and>
      (if fallback_mounted st then True else timeouts st = []))"

subsection \<open>The fallback gate as the specification words it\<close>

text \<open>
  To compare the component with: the gate of the specification knows the delay that
  is configured, the milliseconds that have passed since that delay was configured,
  and whether the scheduler has had a turn since. A configured delay starts the gate
  suppressed, "a timer scheduled for delay milliseconds transitions eligibility to
  satisfied", and "changing the delay value after mount restarts the timer logic from
  scratch with the new value". So the configured delay has elapsed when the scheduler
  has had a turn with at least that many milliseconds passed since the delay was
  configured (a negative delay counting as zero), and the fallback is visible when
  (the delay has elapsed or no delay is configured) and the status is not loaded.
\<close>

record spec_gate =
  spec_delay :: "int option"
  spec_waited :: int
  spec_turned :: bool

definition spec_gate_mount :: "int option \<Rightarrow> spec_gate" where
  "spec_gate_mount delayMs = \<lparr>spec_delay = delayMs, spec_waited = 0, spec_turned = False\<rparr>"

fun spec_gate_step :: "spec_gate \<Rightarrow> fallback_event \<Rightarrow> spec_gate" where
  "spec_gate_step g (FallbackRerender delayMs) =
     (if delayMs = spec_delay g then g else spec_gate_mount delayMs)"
| "spec_gate_step g (Advance t) = g\<lparr>spec_waited := spec_waited g + int t, spec_turned := True\<rparr>"
| "spec_gate_step g FallbackUnmount = g"

definition spec_gate_run :: "int option \<Rightarrow> fallback_event list \<Rightarrow> spec_gate" where
  "spec_gate_run delayMs evs = foldl spec_gate_step (spec_gate_mount delayMs) evs"

definition delay_has_elapsed :: "spec_gate \<Rightarrow> bool" where
  "delay_has_elapsed g =
     (case spec_delay g of
        None \<Rightarrow> False
      | Some d \<Rightarrow> spec_turned g \<and> max 0 d \<le> spec_waited g)"





section \<open>Properties of the image loader\<close>

subsection \<open>Passes in closed form\<close>

lemma initial_state_not_idle: "fst (setImageSrcAndGetInitialState P img src) \<noteq> idle"
  by (simp add: setImageSrcAndGetInitialState_def Let_def split: option.splits)

lemma initial_state_listeners:
  "listeners (snd (setImageSrcAndGetInitialState P img src)) = listeners img"
  by (simp add: setImageSrcAndGetInitialState_def Let_def assign_src_def split: option.splits)

lemma initial_state_subscribe_calls:
  "filter is_subscribe (calls (snd (setImageSrcAndGetInitialState P img src))) =
   filter is_subscribe (calls img)"
  by (simp add: setImageSrcAndGetInitialState_def Let_def assign_src_def split: option.splits)

lemma initial_state_unsubscribe_calls:
  "filter is_unsubscribe (calls (snd (setImageSrcAndGetInitialState P img src))) =
   filter is_unsubscribe (calls img)"
  by (simp add: setImageSrcAndGetInitialState_def Let_def assign_src_def split: option.splits)

lemma AvatarImage_src_deps: "src_deps (AvatarImage P src st) = src"
  by (simp add: AvatarImage_def useImageLoadingStatus_def Let_def handleLoadingStatusChange_def split: prod.splits)

lemma AvatarImage_settled:
  "src = src_deps st \<Longrightarrow>
   loadingStatus (AvatarImage P src st) = status_deps (AvatarImage P src st)"
  by (simp add: AvatarImage_def useImageLoadingStatus_def Let_def handleLoadingStatusChange_def)

lemma AvatarImage_stable:
  "src = src_deps st \<Longrightarrow> loadingStatus st = status_deps st \<Longrightarrow>
   loadingStatus (AvatarImage P src st) = status_deps (AvatarImage P src st) \<and>
   context_imageLoadingStatus (AvatarImage P src st) = context_read (AvatarImage P src st)"
  by (simp add: AvatarImage_def useImageLoadingStatus_def Let_def handleLoadingStatusChange_def)

lemma settle_stable:
  "loadingStatus st = status_deps st \<Longrightarrow> context_imageLoadingStatus st = context_read st \<Longrightarrow>
   settle P src st = st"
  by (subst settle.simps) simp

lemma settle_unfold:
  "settle P src st =
     (if loadingStatus st = status_deps st \<and> context_imageLoadingStatus st = context_read st
      then st
      else let st1 = AvatarImage P src st in
        if loadingStatus st1 = status_deps st1 \<and> context_imageLoadingStatus st1 = context_read st1
        then st1
        else let st2 = AvatarImage P src st1 in
          if loadingStatus st2 = status_deps st2 \<and> context_imageLoadingStatus st2 = context_read st2
          then st2 else AvatarImage P src st2)"
proof -
  let ?st1 = "AvatarImage P src st"
  let ?st2 = "AvatarImage P src ?st1"
  let ?st3 = "AvatarImage P src ?st2"
  have s2: "loadingStatus ?st2 = status_deps ?st2"
    by (rule AvatarImage_settled) (simp add: AvatarImage_src_deps)
  have "loadingStatus ?st3 = status_deps ?st3 \<and>
        context_imageLoadingStatus ?st3 = context_read ?st3"
    using s2 by (intro AvatarImage_stable) (simp_all add: AvatarImage_src_deps)
  then have "settle P src ?st3 = ?st3"
    by (simp add: settle_stable)
  then have "settle P src ?st2 =
      (if loadingStatus ?st2 = status_deps ?st2 \<and>
          context_imageLoadingStatus ?st2 = context_read ?st2 then ?st2 else ?st3)"
    by (subst settle.simps) simp
  then have "settle P src ?st1 =
      (if loadingStatus ?st1 = status_deps ?st1 \<and>
          context_imageLoadingStatus ?st1 = context_read ?st1 then ?st1
       else if loadingStatus ?st2 = status_deps ?st2 \<and>
          context_imageLoadingStatus ?st2 = context_read ?st2 then ?st2 else ?st3)"
    by (subst settle.simps) simp
  then show ?thesis
    by (subst settle.simps) (simp add: Let_def)
qed

lemma rerender_same:
  assumes "mounted st" "at_rest st" "src = src_deps st"
  shows "rerender P src st = st\<lparr>renders := renders st @ [AvatarImage_render src (loadingStatus st)]\<rparr>"
proof -
  from assms(2) have a: "status_deps st = loadingStatus st"
    "context_read st = loadingStatus st" "context_imageLoadingStatus st = loadingStatus st"
    by (auto simp: at_rest_def)
  show ?thesis using a assms(1,3)
    by (simp add: rerender_def settle_unfold AvatarImage_def useImageLoadingStatus_def Let_def)
qed

lemma rerender_changed:
  assumes "mounted st" "at_rest st" "src \<noteq> src_deps st"
    and "setImageSrcAndGetInitialState P (image_current st) src = (s, img)"
  shows "rerender P src st =
     (if s = loadingStatus st
      then st\<lparr>renders := renders st @ [AvatarImage_render src (loadingStatus st)],
              image_current := img, src_deps := src\<rparr>
      else st\<lparr>renders := renders st @
                  [AvatarImage_render src (loadingStatus st), AvatarImage_render src s,
                   AvatarImage_render src s],
              image_current := img, loadingStatus := s, src_deps := src,
              notifications := notifications st @
                 [OnLoadingStatusChange s, OnImageLoadingStatusChange s],
              context_imageLoadingStatus := s, status_deps := s, context_read := s\<rparr>)"
proof -
  have n: "s \<noteq> idle" using initial_state_not_idle [of P "image_current st" src] assms(4) by simp
  from assms(2) have a: "status_deps st = loadingStatus st"
    "context_read st = loadingStatus st" "context_imageLoadingStatus st = loadingStatus st"
    by (auto simp: at_rest_def)
  show ?thesis using n a assms(1,3,4)
    by (simp add: rerender_def settle_unfold AvatarImage_def useImageLoadingStatus_def
        Let_def handleLoadingStatusChange_def)
qed

lemma dispatch_unmounted:
  assumes "at_rest st" "listeners (image_current st) = []"
  shows "dispatchEvent P t st =
     st\<lparr>image_current := (image_current st)\<lparr>handle := delivered P t (handle (image_current st))\<rparr>\<rparr>"
  using assms by (simp add: dispatchEvent_def at_rest_def Let_def run_listeners_def settle_stable)

lemma dispatch_mounted:
  assumes "at_rest st" "loadingStatus st \<noteq> idle"
    "listeners (image_current st) = [(LoadEvent, loaded), (ErrorEvent, error)]"
  shows "dispatchEvent P t st =
    (let img = (image_current st)\<lparr>handle := delivered P t (handle (image_current st))\<rparr>;
         s = (case t of LoadEvent \<Rightarrow> loaded | ErrorEvent \<Rightarrow> error)
     in if s = loadingStatus st then st\<lparr>image_current := img\<rparr>
        else st\<lparr>image_current := img, loadingStatus := s,
                renders := renders st @
                  [AvatarImage_render (src_deps st) s, AvatarImage_render (src_deps st) s],
                notifications := notifications st @ [OnLoadingStatusChange s, OnImageLoadingStatusChange s],
                context_imageLoadingStatus := s, status_deps := s, context_read := s\<rparr>)"
proof -
  from assms(1) have a: "status_deps st = loadingStatus st"
    "context_read st = loadingStatus st" "context_imageLoadingStatus st = loadingStatus st"
    by (auto simp: at_rest_def)
  show ?thesis using a assms(2,3)
    by (cases t)
       (simp_all add: dispatchEvent_def Let_def run_listeners_def settle_unfold
          AvatarImage_def useImageLoadingStatus_def handleLoadingStatusChange_def)
qed

lemma well_paired_append:
  "well_paired xs \<Longrightarrow> s \<noteq> idle \<Longrightarrow>
   well_paired (xs @ [OnLoadingStatusChange s, OnImageLoadingStatusChange s])"
  by (induction xs rule: well_paired.induct) simp_all

lemma rerender_changed_fields:
  assumes "mounted st" "at_rest st" "src \<noteq> src_deps st"
    and "setImageSrcAndGetInitialState P (image_current st) src = (s, img)"
  shows "mounted (rerender P src st)"
    and "src_deps (rerender P src st) = src"
    and "loadingStatus (rerender P src st) = s"
    and "status_deps (rerender P src st) = s"
    and "context_imageLoadingStatus (rerender P src st) = s"
    and "context_read (rerender P src st) = s"
    and "image_current (rerender P src st) = img"
    and "notifications (rerender P src st) =
           (if s = loadingStatus st then notifications st
            else notifications st @ [OnLoadingStatusChange s, OnImageLoadingStatusChange s])"
    and "renders (rerender P src st) \<noteq> []"
    and "last (renders (rerender P src st)) = AvatarImage_render src s"
proof -
  from assms(2) have a: "status_deps st = loadingStatus st"
    "context_imageLoadingStatus st = loadingStatus st" "context_read st = loadingStatus st"
    by (auto simp: at_rest_def)
  note r = rerender_changed [OF assms]
  show "mounted (rerender P src st)" using assms(1) by (cases "s = loadingStatus st") (simp_all add: r)
  show "src_deps (rerender P src st) = src" by (cases "s = loadingStatus st") (simp_all add: r)
  show "loadingStatus (rerender P src st) = s" by (cases "s = loadingStatus st") (simp_all add: r)
  show "status_deps (rerender P src st) = s" using a by (cases "s = loadingStatus st") (simp_all add: r)
  show "context_imageLoadingStatus (rerender P src st) = s"
    using a by (cases "s = loadingStatus st") (simp_all add: r)
  show "context_read (rerender P src st) = s" using a by (cases "s = loadingStatus st") (simp_all add: r)
  show "image_current (rerender P src st) = img" by (cases "s = loadingStatus st") (simp_all add: r)
  show "notifications (rerender P src st) =
           (if s = loadingStatus st then notifications st
            else notifications st @ [OnLoadingStatusChange s, OnImageLoadingStatusChange s])"
    by (cases "s = loadingStatus st") (simp_all add: r)
  show "renders (rerender P src st) \<noteq> []" by (cases "s = loadingStatus st") (simp_all add: r)
  show "last (renders (rerender P src st)) = AvatarImage_render src s"
    by (cases "s = loadingStatus st") (simp_all add: r)
qed

lemma settled_rerender: assumes "settled st" shows "settled (rerender P src st)"
proof (cases "mounted st")
  case False
  then show ?thesis using assms by (simp add: rerender_def)
next
  case True
  from assms have ar: "at_rest st" by (simp add: settled_def)
  show ?thesis
  proof (cases "src = src_deps st")
    case same: True
    then show ?thesis using assms True
      by (auto simp: rerender_same [OF True ar] settled_def at_rest_def)
  next
    case False
    obtain s img where f: "setImageSrcAndGetInitialState P (image_current st) src = (s, img)"
      by (cases "setImageSrcAndGetInitialState P (image_current st) src")
    have s: "s \<noteq> idle" using initial_state_not_idle [of P "image_current st" src] f by simp
    have l: "listeners img = listeners (image_current st)"
      using initial_state_listeners [of P "image_current st" src] f by simp
    have c: "filter is_subscribe (calls img) = filter is_subscribe (calls (image_current st))"
      using initial_state_subscribe_calls [of P "image_current st" src] f by simp
    have u: "filter is_unsubscribe (calls img) = filter is_unsubscribe (calls (image_current st))"
      using initial_state_unsubscribe_calls [of P "image_current st" src] f by simp
    note fl = rerender_changed_fields [OF True ar False f]
    have n: "well_paired (notifications (rerender P src st)) \<and>
             notifications (rerender P src st) \<noteq> [] \<and>
             last (notifications (rerender P src st)) = OnImageLoadingStatusChange s"
      using assms s by (auto simp: fl(8) settled_def at_rest_def well_paired_append)
    show ?thesis using assms True s l c u n
      by (simp add: settled_def at_rest_def fl(1-7,9,10))
  qed
qed

lemma settled_dispatch: assumes "settled st" shows "settled (dispatchEvent P t st)"
proof (cases "mounted st")
  case False
  then show ?thesis using assms by (auto simp: dispatch_unmounted settled_def at_rest_def)
next
  case True
  then show ?thesis using assms
    by (cases t) (auto simp: dispatch_mounted settled_def at_rest_def Let_def well_paired_append)
qed

lemma settled_unmount: assumes "settled st" shows "settled (unmount st)"
  using assms by (auto simp: unmount_def settled_def at_rest_def removeEventListener_def)

lemma settled_step: "settled st \<Longrightarrow> settled (step P st e)"
  by (cases e) (simp_all add: settled_rerender settled_dispatch settled_unmount)


lemma mount_unfold:
  assumes "setImageSrcAndGetInitialState P \<lparr>handle = newImage P, listeners = [], calls = []\<rparr> src = (s0, img1)"
    and "setImageSrcAndGetInitialState P img1 src = (s1, img2)"
  shows "mount P src =
     (let img3 = addEventListener ErrorEvent error (addEventListener LoadEvent loaded img2);
          st = \<lparr>image_current = img3, loadingStatus = s1, src_deps = src, status_deps = s0,
                notifications = [OnLoadingStatusChange s0, OnImageLoadingStatusChange s0],
                context_imageLoadingStatus = s0, context_read = s0,
                renders = [AvatarImage_render src s0, AvatarImage_render src s0],
                mounted = True\<rparr>
      in if s1 = s0 then st
         else st\<lparr>renders := [AvatarImage_render src s0, AvatarImage_render src s1,
                             AvatarImage_render src s1],
                 notifications := [OnLoadingStatusChange s0, OnImageLoadingStatusChange s0,
                                   OnLoadingStatusChange s1, OnImageLoadingStatusChange s1],
                 context_imageLoadingStatus := s1, status_deps := s1, context_read := s1\<rparr>)"
proof -
  have n0: "s0 \<noteq> idle"
    using initial_state_not_idle [of P "\<lparr>handle = newImage P, listeners = [], calls = []\<rparr>" src] assms(1)
    by simp
  have n1: "s1 \<noteq> idle" using initial_state_not_idle [of P img1 src] assms(2) by simp
  show ?thesis using n0 n1
    by (simp add: mount_def AvatarImage_mount_def useImageLoadingStatus_mount_def assms Let_def
        settle_unfold AvatarImage_def useImageLoadingStatus_def handleLoadingStatusChange_def)
qed

lemma settled_mount: "settled (mount P src)"
proof -
  let ?img0 = "\<lparr>handle = newImage P, listeners = [], calls = []\<rparr> :: 'a HTMLImageElement"
  obtain s0 img1 where f0: "setImageSrcAndGetInitialState P ?img0 src = (s0, img1)"
    by (cases "setImageSrcAndGetInitialState P ?img0 src")
  obtain s1 img2 where f1: "setImageSrcAndGetInitialState P img1 src = (s1, img2)"
    by (cases "setImageSrcAndGetInitialState P img1 src")
  have n0: "s0 \<noteq> idle" using initial_state_not_idle [of P ?img0 src] f0 by simp
  have n1: "s1 \<noteq> idle" using initial_state_not_idle [of P img1 src] f1 by simp
  have l1: "listeners img1 = []" using initial_state_listeners [of P ?img0 src] f0 by simp
  have l2: "listeners img2 = []" using initial_state_listeners [of P img1 src] f1 l1 by simp
  have c1: "filter is_subscribe (calls img1) = []"
    using initial_state_subscribe_calls [of P ?img0 src] f0 by simp
  have c2: "filter is_subscribe (calls img2) = []"
    using initial_state_subscribe_calls [of P img1 src] f1 c1 by simp
  have u1: "filter is_unsubscribe (calls img1) = []"
    using initial_state_unsubscribe_calls [of P ?img0 src] f0 by simp
  have u2: "filter is_unsubscribe (calls img2) = []"
    using initial_state_unsubscribe_calls [of P img1 src] f1 u1 by simp
  show ?thesis using n0 n1 l2 c2 u2
    by (simp add: mount_unfold [OF f0 f1] Let_def addEventListener_def settled_def at_rest_def)
qed

lemma settled_run: "settled (run P src evs)"
  by (induction evs rule: rev_induct) (simp_all add: run_def settled_mount settled_step)

subsection \<open>Runs\<close>

lemma mounted_step:
  "settled st \<Longrightarrow> mounted (step P st e) = (mounted st \<and> e \<noteq> Unmount)"
proof (cases e)
  case (Rerender src)
  assume "settled st"
  then have s: "at_rest st" by (simp add: settled_def)
  obtain s' img where f: "setImageSrcAndGetInitialState P (image_current st) src = (s', img)"
    by (cases "setImageSrcAndGetInitialState P (image_current st) src")
  show ?thesis
  proof (cases "mounted st")
    case True
    then show ?thesis using Rerender s
      by (cases "src = src_deps st") (simp_all add: rerender_same rerender_changed [OF _ _ _ f])
  next
    case False
    then show ?thesis using Rerender by (simp add: rerender_def)
  qed
next
  case (Deliver t)
  assume "settled st"
  then show ?thesis using Deliver
    by (cases "mounted st") (auto simp: settled_def at_rest_def dispatch_mounted dispatch_unmounted Let_def)
next
  case Unmount
  then show ?thesis by (simp add: unmount_def)
qed

lemma src_deps_step:
  "settled st \<Longrightarrow>
   src_deps (step P st e) =
     (case e of Rerender src \<Rightarrow> if mounted st then src else src_deps st | _ \<Rightarrow> src_deps st)"
proof (cases e)
  case (Rerender src)
  assume "settled st"
  then have s: "at_rest st" by (simp add: settled_def)
  obtain s' img where f: "setImageSrcAndGetInitialState P (image_current st) src = (s', img)"
    by (cases "setImageSrcAndGetInitialState P (image_current st) src")
  show ?thesis
  proof (cases "mounted st")
    case True
    then show ?thesis using Rerender s
      by (cases "src = src_deps st") (simp_all add: rerender_same rerender_changed [OF _ _ _ f])
  next
    case False
    then show ?thesis using Rerender by (simp add: rerender_def)
  qed
next
  case (Deliver t)
  assume "settled st"
  then show ?thesis using Deliver
    by (cases "mounted st") (auto simp: settled_def at_rest_def dispatch_mounted dispatch_unmounted Let_def)
next
  case Unmount
  then show ?thesis by (simp add: unmount_def)
qed

lemma mounted_mount: "mounted (mount P src)"
proof -
  let ?img0 = "\<lparr>handle = newImage P, listeners = [], calls = []\<rparr> :: 'a HTMLImageElement"
  obtain s0 img1 where f0: "setImageSrcAndGetInitialState P ?img0 src = (s0, img1)"
    by (cases "setImageSrcAndGetInitialState P ?img0 src")
  obtain s1 img2 where f1: "setImageSrcAndGetInitialState P img1 src = (s1, img2)"
    by (cases "setImageSrcAndGetInitialState P img1 src")
  show ?thesis by (simp add: mount_unfold [OF f0 f1] Let_def)
qed

lemma src_deps_mount: "src_deps (mount P src) = src"
proof -
  let ?img0 = "\<lparr>handle = newImage P, listeners = [], calls = []\<rparr> :: 'a HTMLImageElement"
  obtain s0 img1 where f0: "setImageSrcAndGetInitialState P ?img0 src = (s0, img1)"
    by (cases "setImageSrcAndGetInitialState P ?img0 src")
  obtain s1 img2 where f1: "setImageSrcAndGetInitialState P img1 src = (s1, img2)"
    by (cases "setImageSrcAndGetInitialState P img1 src")
  show ?thesis by (simp add: mount_unfold [OF f0 f1] Let_def)
qed

lemma mounted_foldl:
  "settled st \<Longrightarrow> mounted (foldl (step P) st evs) = (mounted st \<and> Unmount \<notin> set evs)"
proof (induction evs arbitrary: st)
  case Nil
  then show ?case by simp
next
  case (Cons e evs)
  have "settled (step P st e)" using Cons.prems by (rule settled_step)
  then have "mounted (foldl (step P) (step P st e) evs) =
     (mounted (step P st e) \<and> Unmount \<notin> set evs)"
    by (rule Cons.IH)
  then show ?case
    by (auto simp add: mounted_step [OF Cons.prems] simp del: step.simps)
qed

lemma mounted_run: "mounted (run P src evs) = (Unmount \<notin> set evs)"
  by (simp add: run_def mounted_foldl settled_mount mounted_mount)

lemma src_deps_foldl:
  "settled st \<Longrightarrow>
   src_deps (foldl (step P) st evs) =
     (if mounted st then latest_src (src_deps st) evs else src_deps st)"
proof (induction evs arbitrary: st)
  case Nil
  then show ?case by simp
next
  case (Cons e evs)
  have "settled (step P st e)" using Cons.prems by (rule settled_step)
  then have "src_deps (foldl (step P) (step P st e) evs) =
     (if mounted (step P st e) then latest_src (src_deps (step P st e)) evs
      else src_deps (step P st e))"
    by (rule Cons.IH)
  then show ?case
    by (cases e)
       (simp_all add: mounted_step [OF Cons.prems] src_deps_step [OF Cons.prems] del: step.simps)
qed

lemma src_deps_run: "src_deps (run P src evs) = latest_src src evs"
  by (simp add: run_def src_deps_foldl settled_mount mounted_mount src_deps_mount)

subsection \<open>The image display element\<close>

text \<open>
  Claim C8. While the instance is mounted, what it has rendered when React yields is the
  image element exactly when the shared status of the Root is \<^verbatim>\<open>'loaded'\<close>, and nothing
  otherwise; the element carries the source of the latest render, whatever sources
  came before. (The component tests its own loader status; between two events that
  status and the Root's are equal, by \<open>settled_run\<close>.)
\<close>

theorem image_element_only_when_loaded:
  "Unmount \<notin> set evs \<longrightarrow>
   last (renders (run P src evs)) =
     (if context_imageLoadingStatus (run P src evs) = loaded then Some (Img (latest_src src evs)) else None)"
  using settled_run [of P src evs]
  by (simp add: settled_def at_rest_def src_deps_run AvatarImage_render_def)

theorem image_element_only_when_loaded_witness:
  "Unmount \<notin> set [Deliver LoadEvent, Rerender (Some ''/test2.png''), Deliver LoadEvent] \<and>
   last (renders (run (MockImage []) (Some ''/test.png'')
           [Deliver LoadEvent, Rerender (Some ''/test2.png''), Deliver LoadEvent])) =
     Some (Img (Some ''/test2.png''))"
  using image_element_only_when_loaded
    [of "[Deliver LoadEvent, Rerender (Some ''/test2.png''), Deliver LoadEvent]"
        "MockImage []" "Some ''/test.png''"]
  by code_simp

subsection \<open>Subscriptions\<close>

text \<open>
  Claim C4. Over every sequence of source changes, notifications and unmounts after the
  mount, the image object sees exactly one \<^verbatim>\<open>addEventListener\<close> call for \<^verbatim>\<open>load\<close> and
  one for \<^verbatim>\<open>error\<close>; none is removed while the instance is mounted; once it is
  unmounted both are removed, no listener is left on the handle, and the subscribe and
  unsubscribe calls are equal in number.
\<close>

theorem subscriptions_balanced:
  "filter is_subscribe (calls (image_current (run P src evs))) =
     [AddEventListener LoadEvent, AddEventListener ErrorEvent] \<and>
   filter is_unsubscribe (calls (image_current (run P src evs))) =
     (if Unmount \<in> set evs then [RemoveEventListener LoadEvent, RemoveEventListener ErrorEvent]
      else []) \<and>
   listeners (image_current (run P src evs)) =
     (if Unmount \<in> set evs then [] else [(LoadEvent, loaded), (ErrorEvent, error)]) \<and>
   (if Unmount \<in> set evs
    then length (filter is_subscribe (calls (image_current (run P src evs)))) =
         length (filter is_unsubscribe (calls (image_current (run P src evs))))
    else True)"
  using settled_run [of P src evs]
  by (simp add: settled_def at_rest_def mounted_run)

theorem subscriptions_balanced_witness:
  "filter is_subscribe (calls (image_current (run (MockImage []) (Some ''/test.png'')
       [Rerender (Some ''/test2.png''), Deliver LoadEvent, Unmount]))) =
     [AddEventListener LoadEvent, AddEventListener ErrorEvent] \<and>
   filter is_unsubscribe (calls (image_current (run (MockImage []) (Some ''/test.png'')
       [Rerender (Some ''/test2.png''), Deliver LoadEvent, Unmount]))) =
     [RemoveEventListener LoadEvent, RemoveEventListener ErrorEvent] \<and>
   listeners (image_current (run (MockImage []) (Some ''/test.png'')
       [Rerender (Some ''/test2.png''), Deliver LoadEvent, Unmount])) = []"
  using subscriptions_balanced
    [of "MockImage []" "Some ''/test.png''" "[Rerender (Some ''/test2.png''), Deliver LoadEvent, Unmount]"]
  by simp

subsection \<open>Notifications\<close>

lemma step_notifies_transition:
  assumes "settled st" "loadingStatus (step P st e) \<noteq> loadingStatus st"
  shows "notifications (step P st e) =
           notifications st @
             [OnLoadingStatusChange (loadingStatus (step P st e)),
              OnImageLoadingStatusChange (loadingStatus (step P st e))]"
proof (cases e)
  case (Rerender src)
  from assms(1) have s: "at_rest st" by (simp add: settled_def)
  obtain s' img where f: "setImageSrcAndGetInitialState P (image_current st) src = (s', img)"
    by (cases "setImageSrcAndGetInitialState P (image_current st) src")
  show ?thesis
  proof (cases "mounted st")
    case True
    then show ?thesis using Rerender s assms(2)
      by (cases "src = src_deps st")
         (simp_all add: rerender_same rerender_changed [OF _ _ _ f] split: if_splits)
  next
    case False
    then show ?thesis using Rerender assms(2) by (simp add: rerender_def)
  qed
next
  case (Deliver t)
  then show ?thesis using assms
    by (cases "mounted st")
       (auto simp: settled_def at_rest_def dispatch_mounted dispatch_unmounted Let_def split: if_splits)
next
  case Unmount
  then show ?thesis using assms(2) by (simp add: unmount_def split: if_splits)
qed

text \<open>
  Claim C3. The loader's status is never \<^verbatim>\<open>'idle'\<close>, so the notifying effect always calls
  through. The status callbacks are called in pairs, the instance-local
  \<^verbatim>\<open>onLoadingStatusChange\<close> first and the Root setter second, with the same status; the
  last pair carries the current status; and every event that changes the status adds
  exactly the pair of the new status, so no transition goes unnotified.
\<close>

theorem status_transitions_notified_in_order:
  "well_paired (notifications (run P src evs)) \<and>
   notifications (run P src evs) \<noteq> [] \<and>
   last (notifications (run P src evs)) =
     OnImageLoadingStatusChange (loadingStatus (run P src evs)) \<and>
   loadingStatus (run P src evs) \<noteq> idle \<and>
   (loadingStatus (run P src (evs @ [e])) \<noteq> loadingStatus (run P src evs) \<longrightarrow>
    notifications (run P src (evs @ [e])) =
      notifications (run P src evs) @
        [OnLoadingStatusChange (loadingStatus (run P src (evs @ [e]))),
         OnImageLoadingStatusChange (loadingStatus (run P src (evs @ [e])))])"
proof -
  have s: "settled (run P src evs)" by (rule settled_run)
  have r: "run P src (evs @ [e]) = step P (run P src evs) e" by (simp add: run_def)
  show ?thesis using s step_notifies_transition [OF s, of P e]
    by (auto simp add: r settled_def at_rest_def simp del: step.simps)
qed

theorem status_transitions_notified_in_order_witness:
  "loadingStatus (run (MockImage []) (Some ''/test.png'') ([] @ [Deliver LoadEvent])) \<noteq>
     loadingStatus (run (MockImage []) (Some ''/test.png'') []) \<and>
   notifications (run (MockImage []) (Some ''/test.png'') ([] @ [Deliver LoadEvent])) =
     [OnLoadingStatusChange loading, OnImageLoadingStatusChange loading,
      OnLoadingStatusChange loaded, OnImageLoadingStatusChange loaded]"
  using status_transitions_notified_in_order
    [of "MockImage []" "Some ''/test.png''" "[]" "Deliver LoadEvent"]
  by code_simp

subsection \<open>Idempotence\<close>








subsection \<open>No source\<close>

text \<open>
  With no source the function answers \<^verbatim>\<open>'error'\<close> and leaves the image object alone;
  mounting with no source, or rendering a mounted instance with a source that became
  absent, ends in status \<^verbatim>\<open>'error'\<close> with no image element and no assignment.
\<close>

lemma no_source_error:
  "src = None \<or> src = Some [] \<Longrightarrow> setImageSrcAndGetInitialState P img src = (error, img)"
  by (auto simp: setImageSrcAndGetInitialState_def)

lemma no_source_mount:
  assumes "src = None \<or> src = Some []"
  shows "loadingStatus (mount P src) = error \<and> renders (mount P src) = [None, None] \<and>
         filter is_assignment (calls (image_current (mount P src))) = [] \<and>
         context_imageLoadingStatus (mount P src) = error"
proof -
  let ?img0 = "\<lparr>handle = newImage P, listeners = [], calls = []\<rparr> :: 'a HTMLImageElement"
  have f0: "setImageSrcAndGetInitialState P ?img0 src = (error, ?img0)"
    using assms by (rule no_source_error)
  show ?thesis
    by (simp add: mount_unfold [OF f0 f0] Let_def addEventListener_def AvatarImage_render_def)
qed

lemma no_source_rerender:
  assumes "settled st" "mounted st" "src \<noteq> src_deps st" "src = None \<or> src = Some []"
  shows "loadingStatus (rerender P src st) = error \<and>
         last (renders (rerender P src st)) = None \<and>
         image_current (rerender P src st) = image_current st \<and>
         context_imageLoadingStatus (rerender P src st) = error"
proof -
  have f: "setImageSrcAndGetInitialState P (image_current st) src = (error, image_current st)"
    using assms(4) by (rule no_source_error)
  from assms(1) have ar: "at_rest st" by (simp add: settled_def)
  note fl = rerender_changed_fields [OF assms(2) ar assms(3) f]
  show ?thesis by (simp add: fl AvatarImage_render_def)
qed

text \<open>
  Claim C1. The status does not stay \<^verbatim>\<open>'error'\<close> for as long as the source is absent:
  the listeners set the status whatever the current source is. Mounted with
  \<^verbatim>\<open>'/test.png'\<close> still decoding, then rendered with no source, the instance holds
  \<^verbatim>\<open>'error'\<close>; when the handle then delivers \<^verbatim>\<open>load\<close> for the old request, the status
  becomes \<^verbatim>\<open>'loaded'\<close>, the Root is told so, and the image element is rendered with
  no source.
\<close>

theorem stale_load_after_source_removed:
  "loadingStatus (run (MockImage []) (Some ''/test.png'') []) = loading \<and>
   loadingStatus (run (MockImage []) (Some ''/test.png'') [Rerender None]) = error \<and>
   loadingStatus (run (MockImage []) (Some ''/test.png'') [Rerender None, Deliver LoadEvent]) = loaded \<and>
   src_deps (run (MockImage []) (Some ''/test.png'') [Rerender None, Deliver LoadEvent]) = None \<and>
   last (renders (run (MockImage []) (Some ''/test.png'') [Rerender None, Deliver LoadEvent])) =
     Some (Img None) \<and>
   context_imageLoadingStatus (run (MockImage []) (Some ''/test.png'') [Rerender None, Deliver LoadEvent]) = loaded"
  by code_simp

subsection \<open>A source that is already decoded\<close>




section \<open>Properties of the fallback gate\<close>

subsection \<open>Pending timeouts\<close>

lemma pending_mount: "pending_is_current (fallback_mount d)"
  by (simp add: pending_is_current_def fallback_mount_def delay_effect_def window_setTimeout_def
      split: option.splits)

lemma run_cleanup_clears:
  "pending_is_current st \<Longrightarrow> timeouts (run_cleanup st) = []"
  by (auto simp: pending_is_current_def run_cleanup_def window_clearTimeout_def list_all_iff
      filter_empty_conv split: option.splits)

lemma rerender_changed_timeouts:
  assumes "pending_is_current st" "fallback_mounted st" "d \<noteq> delayMs_deps st"
  shows "timeouts (fallback_rerender d st) =
           (case d of None \<Rightarrow> [] | Some x \<Rightarrow> [(next_timeout st, clock st + max 0 x)])"
    and "cleanup (fallback_rerender d st) = (case d of None \<Rightarrow> None | Some x \<Rightarrow> Some (next_timeout st))"
    and "canRender (fallback_rerender d st) = canRender st"
    and "delayMs_deps (fallback_rerender d st) = d"
    and "clock (fallback_rerender d st) = clock st"
    and "fallback_mounted (fallback_rerender d st)"
  using assms run_cleanup_clears [OF assms(1)]
  by (auto simp: fallback_rerender_def delay_effect_def window_setTimeout_def run_cleanup_def
      window_clearTimeout_def split: option.splits)

lemma pending_rerender:
  assumes "pending_is_current st" shows "pending_is_current (fallback_rerender d st)"
proof (cases "fallback_mounted st \<and> d \<noteq> delayMs_deps st")
  case True
  then show ?thesis using rerender_changed_timeouts [OF assms, of d]
    by (auto simp: pending_is_current_def split: option.splits)
next
  case False
  then show ?thesis using assms by (auto simp: fallback_rerender_def)
qed

lemma pending_advance:
  assumes "pending_is_current st" shows "pending_is_current (advance t st)"
  using assms
  by (auto simp: pending_is_current_def advance_def Let_def list_all_iff split: option.splits)

lemma pending_unmount:
  assumes "pending_is_current st" shows "pending_is_current (fallback_unmount st)"
  using assms run_cleanup_clears [OF assms]
  by (auto simp: pending_is_current_def fallback_unmount_def run_cleanup_def window_clearTimeout_def
      list_all_iff split: option.splits)

lemma pending_step: "pending_is_current st \<Longrightarrow> pending_is_current (fallback_step st e)"
  by (cases e) (simp_all add: pending_rerender pending_advance pending_unmount)

lemma pending_foldl: "pending_is_current st \<Longrightarrow> pending_is_current (foldl fallback_step st evs)"
  by (induction evs arbitrary: st) (simp_all add: pending_step)

lemma pending_run: "pending_is_current (fallback_run d evs)"
  by (simp add: fallback_run_def pending_foldl pending_mount)

lemma fallback_mounted_step:
  "fallback_mounted (fallback_step st e) = (fallback_mounted st \<and> e \<noteq> FallbackUnmount)"
  by (cases e)
     (auto simp: fallback_rerender_def delay_effect_def window_setTimeout_def run_cleanup_def
       window_clearTimeout_def advance_def Let_def fallback_unmount_def split: option.splits)

lemma fallback_mounted_foldl:
  "fallback_mounted (foldl fallback_step st evs) =
     (fallback_mounted st \<and> FallbackUnmount \<notin> set evs)"
proof (induction evs arbitrary: st)
  case Nil
  then show ?case by simp
next
  case (Cons e evs)
  show ?case using Cons.IH [of "fallback_step st e"]
    by (auto simp add: fallback_mounted_step simp del: fallback_step.simps)
qed

lemma fallback_mounted_run:
  "fallback_mounted (fallback_run d evs) = (FallbackUnmount \<notin> set evs)"
  by (simp add: fallback_run_def fallback_mounted_foldl fallback_mount_def delay_effect_def
      window_setTimeout_def split: option.splits)

subsection \<open>Teardown\<close>

lemma quiet_after_unmount:
  assumes "\<not> fallback_mounted st" "timeouts st = []"
  shows "callbacks (foldl fallback_step st evs) = callbacks st \<and>
         canRender (foldl fallback_step st evs) = canRender st \<and>
         timeouts (foldl fallback_step st evs) = []"
  using assms
proof (induction evs arbitrary: st)
  case Nil
  then show ?case by simp
next
  case (Cons e evs)
  have a: "\<not> fallback_mounted (fallback_step st e)" "timeouts (fallback_step st e) = []"
    "callbacks (fallback_step st e) = callbacks st" "canRender (fallback_step st e) = canRender st"
    using Cons.prems
    by (cases e; simp add: fallback_rerender_def advance_def Let_def fallback_unmount_def)+
  show ?case using Cons.IH [OF a(1,2)] a(3,4) by simp
qed

text \<open>
  Claim C7. Whatever happened before, unmounting leaves no timeout pending: the cleanup
  clears the one the instance scheduled, in the unmount itself. Afterwards, however
  much time passes, no callback runs and \<open>canRender\<close> is never set: both are what they
  were when the instance was unmounted.
\<close>

theorem no_timer_callback_after_teardown:
  "timeouts (fallback_run d (evs @ [FallbackUnmount])) = [] \<and>
   callbacks (foldl fallback_step (fallback_run d (evs @ [FallbackUnmount])) evs') =
     callbacks (fallback_run d evs) \<and>
   canRender (foldl fallback_step (fallback_run d (evs @ [FallbackUnmount])) evs') =
     canRender (fallback_run d evs)"
proof -
  let ?st = "fallback_run d evs"
  have r: "fallback_run d (evs @ [FallbackUnmount]) = fallback_unmount ?st"
    by (simp add: fallback_run_def)
  have p: "pending_is_current (fallback_unmount ?st)"
    by (rule pending_unmount) (rule pending_run)
  have m: "\<not> fallback_mounted (fallback_unmount ?st)"
    by (simp add: fallback_unmount_def)
  have t: "timeouts (fallback_unmount ?st) = []"
    using p m by (simp add: pending_is_current_def)
  have k: "callbacks (fallback_unmount ?st) = callbacks ?st \<and>
           canRender (fallback_unmount ?st) = canRender ?st"
    by (simp add: fallback_unmount_def run_cleanup_def window_clearTimeout_def split: option.splits)
  show ?thesis using quiet_after_unmount [OF m t, of evs'] t k by (simp add: r)
qed

theorem no_timer_callback_after_teardown_witness:
  "timeouts (fallback_run (Some 300) [Advance 100]) = [(0, 300)] \<and>
   timeouts (fallback_run (Some 300) ([Advance 100] @ [FallbackUnmount])) = [] \<and>
   callbacks (foldl fallback_step (fallback_run (Some 300) ([Advance 100] @ [FallbackUnmount]))
      [Advance 1000]) = [] \<and>
   \<not> canRender (foldl fallback_step (fallback_run (Some 300) ([Advance 100] @ [FallbackUnmount]))
      [Advance 1000])"
proof -
  have a: "timeouts (fallback_run (Some 300) [Advance 100]) = [(0, 300)]"
    "callbacks (fallback_run (Some 300) [Advance 100]) = []"
    "\<not> canRender (fallback_run (Some 300) [Advance 100])"
    by code_simp+
  show ?thesis
    using no_timer_callback_after_teardown [of "Some 300" "[Advance 100]" "[Advance 1000]"] a
    by (simp only:) simp
qed

subsection \<open>Eligibility is never taken back\<close>

lemma canRender_step: "canRender st \<Longrightarrow> canRender (fallback_step st e)"
  by (cases e)
     (auto simp: fallback_rerender_def delay_effect_def window_setTimeout_def run_cleanup_def
       window_clearTimeout_def advance_def Let_def fallback_unmount_def split: option.splits)

lemma canRender_foldl: "canRender st \<Longrightarrow> canRender (foldl fallback_step st evs)"
  by (induction evs arbitrary: st) (simp_all add: canRender_step del: fallback_step.simps)

text \<open>
  Claim C10. From any state in which \<open>canRender\<close> is true, no sequence of renders with
  whatever delay values, passing time and unmount makes it false again; from then on
  the component returns its element exactly when the shared status is not
  \<^verbatim>\<open>'loaded'\<close>.
\<close>

theorem eligibility_monotone:
  "canRender st \<longrightarrow>
     canRender (foldl fallback_step st evs) \<and>
     AvatarFallback_render (canRender (foldl fallback_step st evs)) status =
       (if status = loaded then None else Some Span)"
  by (simp add: canRender_foldl AvatarFallback_render_def)

theorem eligibility_monotone_witness:
  "canRender (fallback_run (Some 100) [Advance 100]) \<and>
   canRender (foldl fallback_step (fallback_run (Some 100) [Advance 100])
      [FallbackRerender (Some 300), Advance 5, FallbackRerender None]) \<and>
   AvatarFallback_render (canRender (foldl fallback_step (fallback_run (Some 100) [Advance 100])
      [FallbackRerender (Some 300), Advance 5, FallbackRerender None])) error = Some Span"
proof -
  have a: "canRender (fallback_run (Some 100) [Advance 100])" by code_simp
  show ?thesis
    using a eligibility_monotone [of "fallback_run (Some 100) [Advance 100]"
        "[FallbackRerender (Some 300), Advance 5, FallbackRerender None]" error]
    by (simp add: AvatarFallback_render_def)
qed

subsection \<open>Visibility\<close>









subsection \<open>Changing the delay\<close>

text \<open>
  Claim C6, amended. Rendering a mounted instance with a different delay clears the
  timeout that was pending; with a new delay of \<open>x\<close> ms exactly one timeout is pending
  afterwards, due \<open>max 0 x\<close> ms after the change. Eligibility that was satisfied stays
  satisfied; with a new delay present the flag is what it was before the change, and
  it is satisfied once the new timeout is due.
\<close>

theorem delay_change_restarts_timer:
  "FallbackUnmount \<notin> set evs \<and> d' \<noteq> delayMs_deps (fallback_run d evs) \<longrightarrow>
     timeouts (fallback_rerender d' (fallback_run d evs)) =
       (case d' of None \<Rightarrow> []
        | Some x \<Rightarrow> [(next_timeout (fallback_run d evs), clock (fallback_run d evs) + max 0 x)]) \<and>
     delayMs_deps (fallback_rerender d' (fallback_run d evs)) = d' \<and>
     (canRender (fallback_run d evs) \<longrightarrow> canRender (fallback_rerender d' (fallback_run d evs))) \<and>
     (\<forall>x t. d' = Some x \<and> max 0 x \<le> int t \<longrightarrow>
        canRender (fallback_rerender d' (fallback_run d evs)) = canRender (fallback_run d evs) \<and>
        canRender (advance t (fallback_rerender d' (fallback_run d evs))))"
proof -
  let ?st = "fallback_run d evs"
  have goal: "timeouts (fallback_rerender d' ?st) =
       (case d' of None \<Rightarrow> [] | Some x \<Rightarrow> [(next_timeout ?st, clock ?st + max 0 x)]) \<and>
     delayMs_deps (fallback_rerender d' ?st) = d' \<and>
     (canRender ?st \<longrightarrow> canRender (fallback_rerender d' ?st)) \<and>
     (\<forall>x t. d' = Some x \<and> max 0 x \<le> int t \<longrightarrow>
        canRender (fallback_rerender d' ?st) = canRender ?st \<and>
        canRender (advance t (fallback_rerender d' ?st)))"
    if h: "FallbackUnmount \<notin> set evs" "d' \<noteq> delayMs_deps ?st"
  proof -
    have p: "pending_is_current ?st" by (rule pending_run)
    have m: "fallback_mounted ?st" using h(1) by (simp add: fallback_mounted_run)
    note c = rerender_changed_timeouts [OF p m h(2)]
    have adv: "canRender (advance t (fallback_rerender d' ?st))"
      if "d' = Some x" "max 0 x \<le> int t" for x t
      using that c(1,5) by (simp add: advance_def Let_def)
    show ?thesis using c(1,3,4) adv by auto
  qed
  then show ?thesis by blast
qed

theorem delay_change_restarts_timer_witness:
  "FallbackUnmount \<notin> set [Advance 100] \<and>
   Some 50 \<noteq> delayMs_deps (fallback_run (Some 300) [Advance 100]) \<and>
   timeouts (fallback_run (Some 300) [Advance 100]) = [(0, 300)] \<and>
   timeouts (fallback_rerender (Some 50) (fallback_run (Some 300) [Advance 100])) = [(1, 150)] \<and>
   canRender (advance 50 (fallback_rerender (Some 50) (fallback_run (Some 300) [Advance 100])))"
proof -
  let ?st = "fallback_run (Some 300) [Advance 100]"
  have h: "FallbackUnmount \<notin> set [Advance 100]" "Some 50 \<noteq> delayMs_deps ?st"
    "timeouts ?st = [(0, 300)]" "next_timeout ?st = 1" "clock ?st = 100"
    by code_simp+
  have t: "timeouts (fallback_rerender (Some 50) ?st) =
       (case Some 50 of None \<Rightarrow> [] | Some x \<Rightarrow> [(next_timeout ?st, clock ?st + max 0 x)]) \<and>
     (\<forall>x t. Some 50 = Some x \<and> max 0 x \<le> int t \<longrightarrow>
        canRender (fallback_rerender (Some 50) ?st) = canRender ?st \<and>
        canRender (advance t (fallback_rerender (Some 50) ?st)))"
    using delay_change_restarts_timer [of "[Advance 100]" "Some 50" "Some 300"] h(1,2) by blast
  moreover have "max 0 (50::int) \<le> int 50" by simp
  ultimately have "canRender (advance 50 (fallback_rerender (Some 50) ?st))"
    by blast
  then show ?thesis using h t by simp
qed

text \<open>
  Claim C6 as stated fails: the timer logic does not start from scratch. Mounted with no
  delay and then given 300 ms, the instance is eligible and renders at once, where a
  fresh mount with 300 ms is not eligible; the new timeout is pending and has no say.
\<close>

theorem delay_change_keeps_eligibility_counterexample:
  "canRender (fallback_run None [FallbackRerender (Some 300)]) \<and>
   \<not> canRender (fallback_mount (Some 300)) \<and>
   AvatarFallback_render (canRender (fallback_run None [FallbackRerender (Some 300)])) idle = Some Span \<and>
   \<not> delay_has_elapsed (spec_gate_run None [FallbackRerender (Some 300)]) \<and>
   delayMs_deps (fallback_run None [FallbackRerender (Some 300)]) = Some 300 \<and>
   timeouts (fallback_run None [FallbackRerender (Some 300)]) = [(0, 300)] \<and>
   clock (fallback_run None [FallbackRerender (Some 300)]) = 0"
  by code_simp

text \<open>
  The other direction: a delay withdrawn while its timeout is pending leaves the flag
  false with nothing scheduled, so no passing of time makes the instance eligible.
\<close>

lemma absent_delay_after_mount_never_eligible:
  "canRender (foldl fallback_step (fallback_run (Some 300) [Advance 10, FallbackRerender None])
      (map Advance ts)) = False"
proof -
  have "\<not> canRender st \<and> timeouts st = [] \<Longrightarrow>
     \<not> canRender (foldl fallback_step st (map Advance ts)) " for st
    by (induction ts arbitrary: st) (simp_all add: advance_def Let_def)
  moreover have "\<not> canRender (fallback_run (Some 300) [Advance 10, FallbackRerender None]) \<and>
    timeouts (fallback_run (Some 300) [Advance 10, FallbackRerender None]) = []"
    by code_simp
  ultimately show ?thesis by blast
qed

end
